theory Spec2Isabelle
  imports Main "HOL-Library.Multiset"
begin

section \<open>Python strings\<close>

text \<open>
  A Python \<^verbatim>\<open>str\<close> is modelled as a \<^typ>\<open>string\<close>: a list of 8-bit characters,
  read as the code points U+0000 to U+00FF.  The byte strings of a response body are
  lists of the same characters.
\<close>

definition is_space :: "char \<Rightarrow> bool" where
  \<comment> \<open>\<^verbatim>\<open>str.isspace\<close> on one character: TAB, LF, VT, FF, CR, FS, GS, RS, US, SPACE,
      NEL and NBSP.\<close>
  "is_space c =
     (let n = (of_char c :: nat)
      in (9 \<le> n \<and> n \<le> 13) \<or> (28 \<le> n \<and> n \<le> 32) \<or> n = 133 \<or> n = 160)"

definition lstrip :: "string \<Rightarrow> string" where
  "lstrip s = dropWhile is_space s"

definition rstrip :: "string \<Rightarrow> string" where
  "rstrip s = rev (dropWhile is_space (rev s))"

definition strip :: "string \<Rightarrow> string" where
  \<comment> \<open>\<^verbatim>\<open>s.strip()\<close>\<close>
  "strip s = rstrip (lstrip s)"

definition startswith :: "string \<Rightarrow> string \<Rightarrow> bool" where
  \<comment> \<open>\<^verbatim>\<open>s.startswith(p)\<close>\<close>
  "startswith s p = (take (length p) s = p)"

definition endswith :: "string \<Rightarrow> string \<Rightarrow> bool" where
  \<comment> \<open>\<^verbatim>\<open>s.endswith(p)\<close>\<close>
  "endswith s p = (length p \<le> length s \<and> drop (length s - length p) s = p)"

fun contains :: "string \<Rightarrow> string \<Rightarrow> bool" where
  \<comment> \<open>\<^verbatim>\<open>sub in s\<close>\<close>
  "contains [] sub = (sub = [])"
| "contains (c # cs) sub = (startswith (c # cs) sub \<or> contains cs sub)"

definition is_upper :: "char \<Rightarrow> bool" where
  \<comment> \<open>the characters below U+0100 that \<^verbatim>\<open>str.lower\<close> changes: A-Z and the
      Latin-1 capitals U+00C0 to U+00DE without the multiplication sign U+00D7\<close>
  "is_upper c =
     (let n = (of_char c :: nat)
      in (65 \<le> n \<and> n \<le> 90) \<or> (192 \<le> n \<and> n \<le> 222 \<and> n \<noteq> 215))"

definition lower_char :: "char \<Rightarrow> char" where
  "lower_char c = (if is_upper c then char_of ((of_char c :: nat) + 32) else c)"

definition lower :: "string \<Rightarrow> string" where
  \<comment> \<open>\<^verbatim>\<open>s.lower()\<close>\<close>
  "lower s = map lower_char s"

fun str_replace :: "string \<Rightarrow> string \<Rightarrow> string \<Rightarrow> string" where
  \<comment> \<open>\<^verbatim>\<open>s.replace(old, new)\<close>, written \<open>str_replace old new s\<close>: every occurrence of
      \<open>old\<close>, found from the left and without overlap, is replaced\<close>
  "str_replace [] new s = new @ concat (map (\<lambda>c. c # new) s)"
| "str_replace (p # ps) new [] = []"
| "str_replace (p # ps) new (c # cs) =
     (if startswith (c # cs) (p # ps)
      then new @ str_replace (p # ps) new (drop (length ps) cs)
      else c # str_replace (p # ps) new cs)"

section \<open>Identifier normalizer\<close>

definition clean_doi :: "string \<Rightarrow> string" where
  \<comment> \<open>the warning logged for a result that does not start with \<^verbatim>\<open>10.\<close> has no
      effect on the value returned\<close>
  "clean_doi doi0 =
     (let doi = strip doi0
      in if startswith doi ''https://doi.org/'' then str_replace ''https://doi.org/'' '''' doi
         else if startswith doi ''http://doi.org/'' then str_replace ''http://doi.org/'' '''' doi
         else if startswith doi ''doi:'' then str_replace ''doi:'' '''' doi
         else if startswith doi ''DOI:'' then str_replace ''DOI:'' '''' doi
         else doi)"

definition recognized_prefixes :: "string list" where
  "recognized_prefixes = [''https://doi.org/'', ''http://doi.org/'', ''doi:'', ''DOI:'']"

definition has_recognized_prefix :: "string \<Rightarrow> bool" where
  "has_recognized_prefix s = list_ex (startswith s) recognized_prefixes"

definition canonical :: "string \<Rightarrow> bool" where
  \<comment> \<open>an identifier with no surrounding whitespace and no recognized prefix\<close>
  "canonical s = (strip s = s \<and> \<not> has_recognized_prefix s)"

section \<open>Location resolver\<close>

text \<open>
  The network and the HTML parser are outside the program.  A request made with
  \<^verbatim>\<open>requests.get\<close> ends in a certificate failure, in another exception, or in a
  response; the parser raises on the content of a page (\<open>None\<close>) or gives the parsed
  page, which is described by the hyperlinks that carry a
  \<^verbatim>\<open>href\<close> (with their stripped text) and by its \<^verbatim>\<open>meta\<close> elements, both in
  document order.  The two functions of \<^verbatim>\<open>urllib.parse\<close> that the resolver calls are
  parameters: \<^verbatim>\<open>urlparse\<close>, of which the scheme and the authority are read, and
  \<^verbatim>\<open>urljoin\<close>.  Both raise \<^verbatim>\<open>ValueError\<close> on a malformed URL, which is \<open>None\<close>.
\<close>

datatype 'r get_result = SSLError | RequestError | Response 'r

datatype py_error = KeyError | ValueError





record urllib =
  urlparse :: "string \<Rightarrow> (string \<times> string) option"
  urljoin :: "string \<Rightarrow> string \<Rightarrow> string option"

definition raises_for_status :: "nat \<Rightarrow> bool" where
  \<comment> \<open>\<^verbatim>\<open>response.raise_for_status()\<close> raises for the client and server error codes\<close>
  "raises_for_status code = (400 \<le> code \<and> code < 600)"







definition is_likely_pdf_url :: "string \<Rightarrow> bool" where
  "is_likely_pdf_url url =
     (let url_lower = lower url
      in if endswith url_lower ''.pdf'' then True
         else list_ex (contains url_lower)
                [''pdf'', ''download'', ''filetype=pdf'', ''content-type=application/pdf''])"

definition absolute_url :: "urllib \<Rightarrow> string \<Rightarrow> string \<Rightarrow> string option" where
  \<comment> \<open>the candidate as an absolute URL; \<open>None\<close> when \<^verbatim>\<open>urlparse\<close> or \<^verbatim>\<open>urljoin\<close>
      raises\<close>
  "absolute_url lib publisher_url candidate_url =
     (if startswith candidate_url ''/'' then
        (case urlparse lib publisher_url of
           None \<Rightarrow> None
         | Some (scheme, netloc) \<Rightarrow> Some ((scheme @ ''://'' @ netloc) @ candidate_url))
      else if \<not> startswith candidate_url ''http'' then urljoin lib publisher_url candidate_url
      else Some candidate_url)"

fun first_pdf_candidate ::
  "urllib \<Rightarrow> string \<Rightarrow> (string \<times> string) list \<Rightarrow> py_error + string option" where
  \<comment> \<open>the loop over the pooled candidates: \<open>Inr (Some u)\<close> when it returns the first
      candidate whose absolute form passes the validator, \<open>Inr None\<close> when it runs to its
      end, \<open>Inl ValueError\<close> when making a candidate absolute raises before that\<close>
  "first_pdf_candidate lib publisher_url [] = Inr None"
| "first_pdf_candidate lib publisher_url ((candidate_url, source) # rest) =
     (case absolute_url lib publisher_url candidate_url of
        None \<Rightarrow> Inl ValueError
      | Some u \<Rightarrow>
          if is_likely_pdf_url u then Inr (Some u)
          else first_pdf_candidate lib publisher_url rest)"



section \<open>Catalog merger\<close>

text \<open>
  The catalog is the list of dictionaries read from the catalog file.  A year group has
  the keys \<^verbatim>\<open>year\<close> (an integer or the string \<^verbatim>\<open>older\<close>) and \<^verbatim>\<open>publications\<close>; a
  key that the file leaves out is \<open>None\<close>.  Of a stored record the merger reads the
  title only, with a default for a missing one.
\<close>

datatype year_key = Older | Year int

record publication =
  pub_id :: string
  title :: "string option"
  url :: string
  pub_type :: string
  status :: string

record year_group =
  year :: "year_key option"
  publications :: "publication list option"

type_synonym catalog = "year_group list"

definition is_digit :: "char \<Rightarrow> bool" where
  "is_digit c = (let n = (of_char c :: nat) in 48 \<le> n \<and> n \<le> 57)"

definition digit_val :: "char \<Rightarrow> nat" where
  "digit_val c = of_char c - 48"

definition is_alpha :: "char \<Rightarrow> bool" where
  \<comment> \<open>the class \<^verbatim>\<open>[a-zA-Z]\<close>\<close>
  "is_alpha c = (let n = (of_char c :: nat) in (65 \<le> n \<and> n \<le> 90) \<or> (97 \<le> n \<and> n \<le> 122))"

fun digits_acc :: "nat \<Rightarrow> string \<Rightarrow> nat option" where
  \<comment> \<open>the digits after the first one; one underscore may stand between two digits\<close>
  "digits_acc n [] = Some n"
| "digits_acc n (c # cs) =
     (if is_digit c then digits_acc (10 * n + digit_val c) cs
      else if c = CHR ''_'' then
        (case cs of
           [] \<Rightarrow> None
         | d # ds \<Rightarrow> if is_digit d then digits_acc (10 * n + digit_val d) ds else None)
      else None)"

definition parse_digits :: "string \<Rightarrow> nat option" where
  "parse_digits s =
     (case s of
        [] \<Rightarrow> None
      | c # cs \<Rightarrow> if is_digit c then digits_acc (digit_val c) cs else None)"

definition is_int_space :: "char \<Rightarrow> bool" where
  \<comment> \<open>the whitespace that \<^verbatim>\<open>int\<close> skips around a literal: TAB, LF, VT, FF, CR, SPACE,
      and NEL and NBSP, which are turned into spaces first.  The separators FS, GS, RS
      and US are not among them.\<close>
  "is_int_space c =
     (let n = (of_char c :: nat) in (9 \<le> n \<and> n \<le> 13) \<or> n = 32 \<or> n = 133 \<or> n = 160)"

definition int_strip :: "string \<Rightarrow> string" where
  "int_strip s = rev (dropWhile is_int_space (rev (dropWhile is_int_space s)))"

definition too_many_digits :: "nat \<Rightarrow> string \<Rightarrow> bool" where
  \<comment> \<open>the interpreter's limit on the digits of a decimal literal (4300 unless
      configured, 0 for none; absent in old interpreters, which is 0 too): it applies to
      a literal of more than 640 digits\<close>
  "too_many_digits max_str_digits literal =
     (let digits = length (filter is_digit literal)
      in 0 < max_str_digits \<and> 640 < digits \<and> max_str_digits < digits)"

definition py_int :: "nat \<Rightarrow> string \<Rightarrow> int option" where
  \<comment> \<open>\<^verbatim>\<open>int(s)\<close> on a string, under the given digit limit: surrounding whitespace, an
      optional sign, decimal digits; \<open>None\<close> is the \<^verbatim>\<open>ValueError\<close>\<close>
  "py_int max_str_digits s =
     (case int_strip s of
        [] \<Rightarrow> None
      | c # cs \<Rightarrow>
          (let literal = (if c = CHR ''+'' \<or> c = CHR ''-'' then cs else c # cs)
           in case parse_digits literal of
                None \<Rightarrow> None
              | Some n \<Rightarrow>
                  if too_many_digits max_str_digits literal then None
                  else Some (if c = CHR ''-'' then - int n else int n)))"

fun split_acc :: "string \<Rightarrow> string \<Rightarrow> string list" where
  "split_acc cur [] = (if cur = [] then [] else [cur])"
| "split_acc cur (c # cs) =
     (if is_space c then (if cur = [] then split_acc [] cs else cur # split_acc [] cs)
      else split_acc (cur @ [c]) cs)"

definition split_ws :: "string \<Rightarrow> string list" where
  \<comment> \<open>\<^verbatim>\<open>s.split()\<close>\<close>
  "split_ws s = split_acc [] s"

fun join_underscore :: "string list \<Rightarrow> string" where
  \<comment> \<open>\<^verbatim>\<open>'_'.join(words)\<close>\<close>
  "join_underscore [] = []"
| "join_underscore [w] = w"
| "join_underscore (w # v # ws) = w @ ''_'' @ join_underscore (v # ws)"

fun collapse_underscores :: "string \<Rightarrow> string" where
  \<comment> \<open>\<^verbatim>\<open>re.sub(r'_+', '_', s)\<close>\<close>
  "collapse_underscores (a # b # cs) =
     (if a = CHR ''_'' \<and> b = CHR ''_'' then collapse_underscores (b # cs)
      else a # collapse_underscores (b # cs))"
| "collapse_underscores cs = cs"

definition generate_publication_id :: "string \<Rightarrow> string \<Rightarrow> string \<Rightarrow> string" where
  "generate_publication_id yr first_author ttl =
     (let year_clean = yr;
          author_clean = take 15 (filter is_alpha first_author);
          title_clean = filter (\<lambda>c. is_alpha c \<or> is_digit c \<or> is_space c) ttl;
          title_words = take 5 (split_ws title_clean);
          title_short = join_underscore title_words;
          pub_id = lower (year_clean @ ''_'' @ author_clean @ ''_'' @ title_short)
      in collapse_underscores pub_id)"

definition group_publications :: "year_group \<Rightarrow> publication list" where
  \<comment> \<open>\<^verbatim>\<open>year_group.get('publications', [])\<close>\<close>
  "group_publications g = (case publications g of None \<Rightarrow> [] | Some ps \<Rightarrow> ps)"

definition pub_title :: "publication \<Rightarrow> string" where
  \<comment> \<open>\<^verbatim>\<open>pub.get('title', '')\<close>\<close>
  "pub_title p = (case title p of None \<Rightarrow> [] | Some t \<Rightarrow> t)"

definition is_duplicate :: "catalog \<Rightarrow> string \<Rightarrow> bool" where
  "is_duplicate publications_data ttl =
     list_ex (\<lambda>year_group.
        list_ex (\<lambda>pub. lower (pub_title pub) = lower ttl) (group_publications year_group))
       publications_data"

definition year_category :: "nat \<Rightarrow> string \<Rightarrow> year_key" where
  \<comment> \<open>the first argument is the interpreter's digit limit, under which \<^verbatim>\<open>int(year)\<close>
      runs\<close>
  "year_category max_str_digits yr =
     (case py_int max_str_digits yr of
        Some year_int \<Rightarrow> if year_int < 2022 then Older else Year year_int
      | None \<Rightarrow> Older)"

fun find_year_group :: "year_key \<Rightarrow> catalog \<Rightarrow> py_error + nat option" where
  \<comment> \<open>the index of the first group with the key; reading the key of a group that has
      none raises\<close>
  "find_year_group k [] = Inr None"
| "find_year_group k (g # gs) =
     (case year g of
        None \<Rightarrow> Inl KeyError
      | Some y \<Rightarrow>
          if y = k then Inr (Some 0)
          else (case find_year_group k gs of
                  Inl e \<Rightarrow> Inl e
                | Inr None \<Rightarrow> Inr None
                | Inr (Some i) \<Rightarrow> Inr (Some (Suc i))))"

definition new_publication :: "string \<Rightarrow> string \<Rightarrow> string \<Rightarrow> string option \<Rightarrow> publication" where
  "new_publication yr first_author ttl pdf_url =
     \<lparr>pub_id = generate_publication_id yr first_author ttl,
      title = Some ttl,
      url = (case pdf_url of None \<Rightarrow> [] | Some u \<Rightarrow> u),
      pub_type = ''journal'',
      status = ''published''\<rparr>"

definition add_publication_to_json ::
  "nat \<Rightarrow> catalog \<Rightarrow> string \<Rightarrow> string \<Rightarrow> string \<Rightarrow> string \<Rightarrow> string option \<Rightarrow>
     catalog \<times> bool" where
  \<comment> \<open>the catalog after the call and the value returned; the handler of the outer
      \<^verbatim>\<open>try\<close> turns an exception into \<open>False\<close>.  The first argument is the
      interpreter's digit limit.\<close>
  "add_publication_to_json max_str_digits publications_data yr first_author ttl doi pdf_url =
     (if is_duplicate publications_data ttl then (publications_data, False)
      else
        (let year_cat = year_category max_str_digits yr;
             pub = new_publication yr first_author ttl pdf_url
         in case find_year_group year_cat publications_data of
              Inl e \<Rightarrow> (publications_data, False)
            | Inr None \<Rightarrow>
                (publications_data @ [\<lparr>year = Some year_cat, publications = Some [pub]\<rparr>], True)
            | Inr (Some i) \<Rightarrow>
                (case publications (publications_data ! i) of
                   None \<Rightarrow> (publications_data, False)
                 | Some ps \<Rightarrow>
                     (publications_data
                        [i := (publications_data ! i)\<lparr>publications := Some (ps @ [pub])\<rparr>],
                      True))))"

subsection \<open>Persistence\<close>

datatype order_key = Key_Num int | Key_Inf

instantiation order_key :: linorder
begin

fun less_eq_order_key :: "order_key \<Rightarrow> order_key \<Rightarrow> bool" where
  "less_eq_order_key (Key_Num a) (Key_Num b) = (a \<le> b)"
| "less_eq_order_key (Key_Num a) Key_Inf = True"
| "less_eq_order_key Key_Inf (Key_Num b) = False"
| "less_eq_order_key Key_Inf Key_Inf = True"

definition less_order_key :: "order_key \<Rightarrow> order_key \<Rightarrow> bool" where
  "less_order_key x y = (x \<le> y \<and> \<not> y \<le> x)"

instance
proof
  fix x y z :: order_key
  show "(x < y) = (x \<le> y \<and> \<not> y \<le> x)" by (simp add: less_order_key_def)
  show "x \<le> x" by (cases x) simp_all
  show "x \<le> y \<Longrightarrow> y \<le> z \<Longrightarrow> x \<le> z" by (cases x; cases y; cases z) simp_all
  show "x \<le> y \<Longrightarrow> y \<le> x \<Longrightarrow> x = y" by (cases x; cases y) simp_all
  show "x \<le> y \<or> y \<le> x" by (cases x; cases y) auto
qed

end

definition group_key :: "year_group \<Rightarrow> order_key" where
  \<comment> \<open>the sort key \<^verbatim>\<open>float('inf') if x['year'] == 'older' else x['year']\<close> of a group
      that has a year\<close>
  "group_key g = (case year g of Some (Year y) \<Rightarrow> Key_Num y | _ \<Rightarrow> Key_Inf)"

definition sort_groups :: "catalog \<Rightarrow> py_error + catalog" where
  \<comment> \<open>\<^verbatim>\<open>data.sort(key=..., reverse=True)\<close>: the keys are computed first, and a key that
      raises leaves the list as it was; the reversed sort keeps the order of equal keys\<close>
  "sort_groups data =
     (if list_ex (\<lambda>g. year g = None) data then Inl KeyError
      else Inr (rev (sort_key group_key (rev data))))"

record save_env =
  timestamp :: string
  can_rename :: bool
  can_write :: bool

definition save_publications_json ::
  "save_env \<Rightarrow> (string \<rightharpoonup> catalog) \<Rightarrow> catalog \<Rightarrow> string \<Rightarrow> bool \<times> catalog \<times> (string \<rightharpoonup> catalog)" where
  \<comment> \<open>the value returned, the list after the call and the files after the call; a file
      holds the catalog that was serialized into it\<close>
  "save_publications_json env files data filepath =
     (case files filepath of
        Some old \<Rightarrow>
          if \<not> can_rename env then (False, data, files)
          else
            (let files1 = files(filepath := None,
                                filepath @ ''.backup.'' @ timestamp env \<mapsto> old)
             in case sort_groups data of
                  Inl e \<Rightarrow> (False, data, files1)
                | Inr sorted_data \<Rightarrow>
                    if can_write env then (True, sorted_data, files1(filepath \<mapsto> sorted_data))
                    else (False, sorted_data, files1))
      | None \<Rightarrow>
          (case sort_groups data of
             Inl e \<Rightarrow> (False, data, files)
           | Inr sorted_data \<Rightarrow>
               if can_write env then (True, sorted_data, files(filepath \<mapsto> sorted_data))
               else (False, sorted_data, files)))"

definition older_group :: "year_group \<Rightarrow> bool" where
  "older_group g = (year g = Some Older)"

definition year_number :: "year_group \<Rightarrow> int" where
  "year_number g = (case year g of Some (Year y) \<Rightarrow> y | _ \<Rightarrow> 0)"

section \<open>Resilient fetcher\<close>

text \<open>
  What the network and the disk do in one attempt is the environment of that attempt:
  the outcome of the request with certificate verification, the outcome of the request
  without it (made after a certificate failure only), and whether the destination can
  be opened for writing.  A response carries its status code, its content-type header,
  the bytes of its body as the stream delivers them, and whether the stream breaks
  after the last of them.  Two more properties of the transport decide what a second
  reader of the stream receives after a first one has taken a chunk and been dropped:
  the number of bytes that the first read returns (1024 under a declared content
  length, the size of the first chunk or of the first decoded block otherwise; at
  least one when the body is not empty), and whether the body arrives in chunked
  transfer encoding, where the connection is closed with the dropped reader.  The
  state of the call is the file at the destination path (\<open>None\<close> when there is none),
  the number of attempts begun, and the waits made.
\<close>

record file_response =
  status_code :: nat
  content_type :: "string option"
  body :: string
  stream_breaks :: bool
  first_read :: nat
  chunked :: bool

record attempt_env =
  get_verified :: "file_response get_result"
  get_unverified :: "file_response get_result"
  dest_writable :: bool

record fetch_state =
  succeeded :: bool
  dest :: "string option"
  attempts :: nat
  sleeps :: "nat list"

datatype flow = Returned | Continued | Raised | Fell_Through

definition request :: "attempt_env \<Rightarrow> bool \<Rightarrow> flow + file_response" where
  \<comment> \<open>the inner \<^verbatim>\<open>try\<close>; \<open>again\<close> is \<^verbatim>\<open>attempt < max_retries - 1\<close>.  An error status of
      the request without verification is raised inside a handler and reaches the outer
      handler.\<close>
  "request env again =
     (case get_verified env of
        Response r \<Rightarrow>
          if raises_for_status (status_code r)
          then (if status_code r = 403 \<and> again then Inl Continued else Inl Raised)
          else Inr r
      | SSLError \<Rightarrow>
          (case get_unverified env of
             Response r \<Rightarrow> if raises_for_status (status_code r) then Inl Raised else Inr r
           | SSLError \<Rightarrow> Inl Raised
           | RequestError \<Rightarrow> Inl Raised)
      | RequestError \<Rightarrow> Inl Raised)"

definition needs_peek :: "string \<Rightarrow> file_response \<Rightarrow> bool" where
  "needs_peek url0 r =
     (let ct = lower (case content_type r of None \<Rightarrow> [] | Some c \<Rightarrow> c)
      in \<not> contains ct ''pdf'' \<and> \<not> endswith (lower url0) ''.pdf'')"

definition after_peek :: "file_response \<Rightarrow> string" where
  \<comment> \<open>what the loop that writes the file receives when the peek
      \<^verbatim>\<open>next(response.iter_content(1024), b'')\<close> has read the first chunk off the
      stream: the bytes after that chunk, or nothing when the connection went with the
      peek's iterator\<close>
  "after_peek r = (if chunked r then [] else drop (max 1 (first_read r)) (body r))"

definition store_body :: "string \<Rightarrow> file_response \<Rightarrow> bool \<Rightarrow> string option \<Rightarrow> flow \<times> string option" where
  \<comment> \<open>from the content-type check to the size check.  A peek at an empty body
      exhausts the stream, and the second \<^verbatim>\<open>iter_content\<close> raises after the file
      has been created.  A stream that would break does not when the peek has closed
      it already.\<close>
  "store_body url0 r writable file =
     (let peek = needs_peek url0 r
      in if peek \<and> body r = [] \<and> stream_breaks r then (Raised, file)
         else if \<not> writable then (Raised, file)
         else if peek \<and> body r = [] then (Raised, Some [])
         else
           (let written = (if peek then after_peek r else body r);
                breaks = (stream_breaks r \<and> \<not> (peek \<and> chunked r))
            in if breaks then (Raised, Some written)
               else if 1000 < length written then (Returned, Some written)
               else (Fell_Through, None)))"

definition attempt_once :: "attempt_env \<Rightarrow> string \<Rightarrow> bool \<Rightarrow> string option \<Rightarrow> flow \<times> string option" where
  "attempt_once env url0 again file =
     (case request env again of
        Inl fl \<Rightarrow> (fl, file)
      | Inr r \<Rightarrow> store_body url0 r (dest_writable env) file)"

fun download_loop ::
  "(nat \<Rightarrow> attempt_env) \<Rightarrow> string \<Rightarrow> int \<Rightarrow> nat \<Rightarrow> nat \<Rightarrow> fetch_state \<Rightarrow> fetch_state" where
  \<comment> \<open>\<open>download_loop world url max_retries remaining attempt st\<close>: the iterations of
      \<^verbatim>\<open>for attempt in range(max_retries)\<close> that are left\<close>
  "download_loop world url0 max_retries 0 attempt st = st\<lparr>succeeded := False\<rparr>"
| "download_loop world url0 max_retries (Suc remaining) attempt st =
     (let again = (int attempt < max_retries - 1);
          st1 = st\<lparr>attempts := attempts st + 1\<rparr>
      in case attempt_once (world attempt) url0 again (dest st1) of
           (Returned, file) \<Rightarrow> st1\<lparr>succeeded := True, dest := file\<rparr>
         | (Continued, file) \<Rightarrow>
             download_loop world url0 max_retries remaining (Suc attempt)
               (st1\<lparr>dest := file, sleeps := sleeps st1 @ [5]\<rparr>)
         | (Raised, file) \<Rightarrow>
             download_loop world url0 max_retries remaining (Suc attempt)
               (st1\<lparr>dest := None,
                    sleeps := (if again then sleeps st1 @ [2 ^ attempt] else sleeps st1)\<rparr>)
         | (Fell_Through, file) \<Rightarrow>
             download_loop world url0 max_retries remaining (Suc attempt) (st1\<lparr>dest := file\<rparr>))"

definition download_pdf :: "(nat \<Rightarrow> attempt_env) \<Rightarrow> string \<Rightarrow> string option \<Rightarrow> int \<Rightarrow> fetch_state" where
  \<comment> \<open>\<open>download_pdf world url file max_retries\<close>, with \<open>file\<close> the content of the
      destination path before the call\<close>
  "download_pdf world url0 file max_retries =
     download_loop world url0 max_retries (nat max_retries) 0
       \<lparr>succeeded = False, dest = file, attempts = 0, sleeps = []\<rparr>"

section \<open>Scenarios\<close>






definition study_2021 :: publication where
  "study_2021 = new_publication ''2021'' ''Doe'' ''A Study'' None"

definition catalog_with_study :: catalog where
  "catalog_with_study = [\<lparr>year = Some Older, publications = Some [study_2021]\<rparr>]"

definition unsorted_catalog :: catalog where
  "unsorted_catalog =
     [\<lparr>year = Some (Year 2022), publications = Some []\<rparr>,
      \<lparr>year = Some Older, publications = Some [study_2021]\<rparr>,
      \<lparr>year = Some (Year 2024), publications = Some []\<rparr>]"

definition sorted_catalog :: catalog where
  "sorted_catalog =
     [\<lparr>year = Some Older, publications = Some [study_2021]\<rparr>,
      \<lparr>year = Some (Year 2024), publications = Some []\<rparr>,
      \<lparr>year = Some (Year 2022), publications = Some []\<rparr>]"

definition healthy_disk :: save_env where
  "healthy_disk = \<lparr>timestamp = ''20240101_120000'', can_rename = True, can_write = True\<rparr>"

definition forbidden_env :: attempt_env where
  \<comment> \<open>an attempt that is answered with HTTP 403\<close>
  "forbidden_env =
     \<lparr>get_verified = Response \<lparr>status_code = 403, content_type = Some ''text/html'',
                                body = ''Forbidden'', stream_breaks = False,
                                first_read = 1024, chunked = False\<rparr>,
      get_unverified = RequestError,
      dest_writable = True\<rparr>"

definition document_env :: "string \<Rightarrow> nat \<Rightarrow> attempt_env" where
  \<comment> \<open>an attempt that is answered with a document of \<open>8 + n\<close> bytes under the given
      content type and a declared content length\<close>
  "document_env ct n =
     \<lparr>get_verified = Response \<lparr>status_code = 200, content_type = Some ct,
                                body = ''%PDF-1.4'' @ replicate n (CHR ''x''),
                                stream_breaks = False,
                                first_read = 1024, chunked = False\<rparr>,
      get_unverified = RequestError,
      dest_writable = True\<rparr>"

definition always_forbidden :: "nat \<Rightarrow> attempt_env" where
  "always_forbidden attempt = forbidden_env"

definition forbidden_twice :: "nat \<Rightarrow> attempt_env" where
  "forbidden_twice attempt =
     (if attempt < 2 then forbidden_env else document_env ''application/pdf'' 1500)"

definition forbidden_twice_unlabelled :: "nat \<Rightarrow> attempt_env" where
  \<comment> \<open>two attempts answered with HTTP 403, then a document of 1508 bytes that the server
      labels as a byte stream\<close>
  "forbidden_twice_unlabelled attempt =
     (if attempt < 2 then forbidden_env else document_env ''application/octet-stream'' 1500)"



definition unlabelled_document :: "nat \<Rightarrow> attempt_env" where
  \<comment> \<open>every attempt is answered with a document of 3008 bytes that the server labels
      as a byte stream\<close>
  "unlabelled_document attempt = document_env ''application/octet-stream'' 3000"

section \<open>Properties of the identifier normalizer\<close>

lemma length_str_replace_empty_le: "length (str_replace old [] s) \<le> length s"
proof (induction old "[] :: string" s rule: str_replace.induct)
  case (1 s)
  show ?case by (induction s) simp_all
next
  case (2 p ps)
  show ?case by simp
next
  case (3 p ps c cs)
  then show ?case by (auto simp: le_Suc_eq)
qed

lemma length_str_replace_prefix_less:
  assumes "old \<noteq> []" and "startswith s old"
  shows "length (str_replace old [] s) < length s"
proof -
  obtain p ps where old: "old = p # ps" using assms(1) by (cases old) auto
  with assms(2) obtain c cs where s: "s = c # cs" by (cases s) (auto simp: startswith_def)
  have "length (str_replace old [] (drop (length ps) cs)) \<le> length cs"
    using length_str_replace_empty_le [of old "drop (length ps) cs"] by simp
  with assms(2) show ?thesis unfolding old s by simp
qed

lemma dropWhile_length_eq: "length (dropWhile P xs) = length xs \<Longrightarrow> dropWhile P xs = xs"
  by (metis append_self_conv2 length_0_conv length_append add_cancel_right_left
      takeWhile_dropWhile_id add.commute)

lemma length_strip_le: "length (strip s) \<le> length s"
  unfolding strip_def rstrip_def lstrip_def
  by (metis length_rev length_dropWhile_le le_trans)

lemma strip_length_eq:
  assumes "length (strip s) = length s"
  shows "strip s = s"
proof -
  have a: "length (rstrip (lstrip s)) \<le> length (lstrip s)"
    unfolding rstrip_def by (metis length_rev length_dropWhile_le)
  have b: "length (lstrip s) \<le> length s"
    unfolding lstrip_def by (rule length_dropWhile_le)
  from assms a b have l: "length (lstrip s) = length s"
    and r: "length (rstrip (lstrip s)) = length (lstrip s)"
    unfolding strip_def by simp_all
  from l have l': "lstrip s = s" unfolding lstrip_def by (rule dropWhile_length_eq)
  from r l' have "length (dropWhile is_space (rev s)) = length (rev s)"
    unfolding rstrip_def by simp
  then have "dropWhile is_space (rev s) = rev s" by (rule dropWhile_length_eq)
  then show ?thesis unfolding strip_def l' rstrip_def by simp
qed

lemma clean_doi_no_prefix: "\<not> has_recognized_prefix (strip s) \<Longrightarrow> clean_doi s = strip s"
  by (simp add: clean_doi_def has_recognized_prefix_def recognized_prefixes_def)

lemma clean_doi_prefix_shorter:
  assumes "has_recognized_prefix (strip s)"
  shows "length (clean_doi s) < length s"
proof -
  have "length (clean_doi s) < length (strip s)"
    using assms
    by (auto simp: clean_doi_def Let_def has_recognized_prefix_def recognized_prefixes_def
        intro!: length_str_replace_prefix_less)
  with length_strip_le [of s] show ?thesis by simp
qed

lemma clean_doi_fixed_point: "clean_doi t = t \<longleftrightarrow> canonical t"
proof
  assume fx: "clean_doi t = t"
  have np: "\<not> has_recognized_prefix (strip t)"
    using clean_doi_prefix_shorter [of t] fx by auto
  then have "strip t = t" using clean_doi_no_prefix [of t] fx by simp
  with np show "canonical t" by (simp add: canonical_def)
next
  assume "canonical t"
  then show "clean_doi t = t"
    using clean_doi_no_prefix [of t] by (simp add: canonical_def)
qed

lemma str_replace_absent:
  "\<not> contains s (p # ps) \<Longrightarrow> str_replace (p # ps) [] s = s"
  by (induction s) simp_all

lemma str_replace_leading:
  "str_replace (p # ps) [] ((p # ps) @ s) = str_replace (p # ps) [] s"
  by (simp add: startswith_def)

lemma strip_prefixed:
  assumes "p \<noteq> []" and "\<not> is_space (hd p)" and "\<not> is_space (last p)" and "rstrip s = s"
  shows "strip (p @ s) = p @ s"
proof -
  from assms(1,2) have l: "lstrip (p @ s) = p @ s"
    by (cases p) (simp_all add: lstrip_def)
  have "dropWhile is_space (rev s @ rev p) = rev s @ rev p"
  proof (cases s rule: rev_cases)
    case Nil
    with assms(1,3) show ?thesis by (cases p rule: rev_cases) simp_all
  next
    case (snoc ys y)
    have "\<not> is_space y"
    proof
      assume "is_space y"
      with snoc assms(4) have "rev (dropWhile is_space (rev ys)) = ys @ [y]"
        by (simp add: rstrip_def)
      then have "length (dropWhile is_space (rev ys)) = Suc (length ys)"
        by (metis length_rev length_append_singleton)
      with length_dropWhile_le [of is_space "rev ys"] show False by simp
    qed
    with snoc show ?thesis by simp
  qed
  then have "rstrip (p @ s) = p @ s" by (simp add: rstrip_def)
  with l show ?thesis by (simp add: strip_def)
qed

text \<open>
  Where the body has no trailing whitespace and does not hold the prefix again, the
  normalizer returns the body: this covers the identifiers of the form \<^verbatim>\<open>10.X/Y\<close>.
\<close>

lemma clean_doi_strips_prefix:
  assumes "p \<in> set recognized_prefixes" and "rstrip s = s" and "\<not> contains s p"
  shows "clean_doi (p @ s) = s"
proof -
  from assms(1) have sp: "\<not> is_space (hd p)" "\<not> is_space (last p)" "p \<noteq> []"
    unfolding recognized_prefixes_def by (auto simp: is_space_def)
  then have st: "strip (p @ s) = p @ s" using assms(2) by (simp add: strip_prefixed)
  from assms(1) consider "p = ''https://doi.org/''" | "p = ''http://doi.org/''"
    | "p = ''doi:''" | "p = ''DOI:''"
    unfolding recognized_prefixes_def by auto
  then show ?thesis
    using assms(3) unfolding clean_doi_def st Let_def
    by cases (simp_all add: startswith_def str_replace_absent)
qed

text \<open>
  Claim C7, at an identifier whose body holds the prefix a second time: the trimmed
  input \<^verbatim>\<open>doi:10.1000/adoi:b\<close> starts with the prefix \<^verbatim>\<open>doi:\<close>, and the normalizer
  returns \<^verbatim>\<open>10.1000/ab\<close>.  It has removed both occurrences of the prefix, not the leading
  one alone, so the rest of the string is not left unchanged.
\<close>

theorem clean_doi_removes_every_occurrence:
  "clean_doi (''doi:'' @ ''10.1000/adoi:b'') = ''10.1000/ab''"
  by code_simp

text \<open>
  Claim C8, as the code has it: an identifier that is canonical (no surrounding
  whitespace, no recognized prefix) is returned unchanged, and normalizing twice gives
  the same as normalizing once exactly when the first result is canonical.
\<close>

theorem clean_doi_idempotent_iff_canonical:
  "(canonical t \<longrightarrow> clean_doi t = t) \<and>
   (clean_doi (clean_doi s) = clean_doi s \<longleftrightarrow> canonical (clean_doi s))"
  by (simp add: clean_doi_fixed_point)

theorem clean_doi_idempotent_iff_canonical_witness:
  "canonical ''10.1038/nature12373'' \<and>
   clean_doi ''10.1038/nature12373'' = ''10.1038/nature12373'' \<and>
   canonical (clean_doi ''https://doi.org/10.1038/nature12373'') \<and>
   clean_doi (clean_doi ''https://doi.org/10.1038/nature12373'') =
     clean_doi ''https://doi.org/10.1038/nature12373''"
proof -
  have c1: "canonical ''10.1038/nature12373''" by code_simp
  have c2: "canonical (clean_doi ''https://doi.org/10.1038/nature12373'')" by code_simp
  note inst = clean_doi_idempotent_iff_canonical
    [of "''10.1038/nature12373''" "''https://doi.org/10.1038/nature12373''"]
  from inst c1 have r1: "clean_doi ''10.1038/nature12373'' = ''10.1038/nature12373''"
    by blast
  from inst c2 have r2: "clean_doi (clean_doi ''https://doi.org/10.1038/nature12373'') =
     clean_doi ''https://doi.org/10.1038/nature12373''"
    by blast
  from c1 c2 r1 r2 show ?thesis by blast
qed

text \<open>
  Claim C8 as stated fails where the input carries two different recognized prefixes:
  one pass removes the first and leaves the second, which the next pass removes.
\<close>

theorem clean_doi_not_idempotent:
  "clean_doi (clean_doi ''doi:DOI:10.1000/x'') \<noteq> clean_doi ''doi:DOI:10.1000/x''"
  by code_simp

section \<open>Properties of the location resolver\<close>


lemma first_pdf_candidate_exhausted_iff:
  "first_pdf_candidate lib u xs = Inr None \<longleftrightarrow>
     (\<forall>c \<in> set xs. \<exists>a. absolute_url lib u (fst c) = Some a \<and> \<not> is_likely_pdf_url a)"
  by (induction lib u xs rule: first_pdf_candidate.induct) (auto split: option.splits)

lemma first_pdf_candidate_found:
  "first_pdf_candidate lib u xs = Inr (Some a) \<Longrightarrow>
     is_likely_pdf_url a \<and> (\<exists>c \<in> set xs. absolute_url lib u (fst c) = Some a)"
  by (induction lib u xs rule: first_pdf_candidate.induct) (auto split: option.splits if_splits)






section \<open>Properties of the catalog merger\<close>

lemma is_duplicate_iff:
  "is_duplicate data ttl \<longleftrightarrow>
     (\<exists>g \<in> set data. \<exists>p \<in> set (group_publications g). lower (pub_title p) = lower ttl)"
  by (simp add: is_duplicate_def list_ex_iff)

lemma find_year_group_Some:
  "find_year_group k gs = Inr (Some i) \<Longrightarrow> i < length gs \<and> year (gs ! i) = Some k"
proof (induction gs arbitrary: i)
  case Nil
  then show ?case by simp
next
  case (Cons g gs)
  then show ?case
    by (auto split: option.splits if_splits sum.splits)
qed

lemma find_year_group_None:
  "find_year_group k gs = Inr None \<Longrightarrow> \<forall>g \<in> set gs. year g \<noteq> Some k \<and> year g \<noteq> None"
proof (induction gs)
  case Nil
  then show ?case by simp
next
  case (Cons g gs)
  then show ?case
    by (auto split: option.splits if_splits sum.splits)
qed

text \<open>
  Claim C4: when some record of some year group of the catalog has a title that is
  equal, after lowering, to the title of the new record, the merge returns
  \<open>inserted = False\<close>, whatever the year of the new record.
\<close>

theorem duplicate_title_blocks_insertion:
  assumes "g \<in> set data" and "publications g = Some ps" and "p \<in> set ps"
    and "title p = Some t1" and "lower t1 = lower t2"
  shows "snd (add_publication_to_json lim data yr first_author t2 doi pdf_url) = False"
proof -
  from assms(2,3) have "p \<in> set (group_publications g)" by (simp add: group_publications_def)
  moreover from assms(4,5) have "lower (pub_title p) = lower t2" by (simp add: pub_title_def)
  ultimately have "is_duplicate data t2" using assms(1) unfolding is_duplicate_iff by blast
  then show ?thesis by (simp add: add_publication_to_json_def)
qed

text \<open>
  Claim C10: a merge that finds a duplicate title returns \<open>False\<close> and the catalog it
  was given; more generally every merge that returns \<open>False\<close> leaves the catalog as it
  was, with no group added or removed and no record appended.
\<close>

theorem rejected_merge_leaves_catalog:
  "(is_duplicate data ttl \<longrightarrow>
      add_publication_to_json lim data yr first_author ttl doi pdf_url = (data, False)) \<and>
   (\<not> snd (add_publication_to_json lim data yr first_author ttl doi pdf_url) \<longrightarrow>
      fst (add_publication_to_json lim data yr first_author ttl doi pdf_url) = data)"
  by (auto simp: add_publication_to_json_def Let_def split: sum.splits option.splits)

text \<open>
  The reading of integers follows the interpreter where it differs from \<^verbatim>\<open>str.strip\<close>:
  a year followed by the separator U+001F is no integer, and a literal of more digits
  than the limit allows is none either.
\<close>

lemma py_int_rejects_separator:
  "py_int 4300 (''2025'' @ [CHR 0x1F]) = None \<and> year_category 4300 (''2025'' @ [CHR 0x1F]) = Older"
  by code_simp

lemma py_int_digit_limit:
  assumes "0 < lim" and "640 < length s" and "lim < length s" and "\<forall>c \<in> set s. is_digit c"
  shows "py_int lim s = None"
proof -
  from assms(2) obtain c cs where s: "s = c # cs" by (cases s) auto
  have nsp: "\<not> is_int_space x" if "is_digit x" for x
    using that by (auto simp: is_digit_def is_int_space_def Let_def)
  from assms(4) have all: "\<forall>x \<in> set s. \<not> is_int_space x" using nsp by blast
  have keep: "dropWhile is_int_space xs = xs" if "\<forall>x \<in> set xs. \<not> is_int_space x" for xs
    using that by (cases xs) simp_all
  from all have "dropWhile is_int_space s = s" and "dropWhile is_int_space (rev s) = rev s"
    by (simp_all add: keep)
  then have st: "int_strip s = s" by (simp add: int_strip_def)
  have sign: "c \<noteq> CHR ''+''" "c \<noteq> CHR ''-''"
    using assms(4) s by (auto simp: is_digit_def Let_def)
  from assms(4) have "filter is_digit s = s" by (simp add: filter_id_conv)
  with assms(1-3) have "too_many_digits lim s" by (simp add: too_many_digits_def Let_def)
  then show ?thesis
    using st sign s by (simp add: py_int_def Let_def split: option.splits)
qed

text \<open>
  Claim C5: the key computed for a year is the integer itself when the year parses as
  an integer that is at least 2022, and \<open>Older\<close> in every other case; a record that is
  inserted is appended to a group with that key.  The year is the string that the
  merger is given, and it parses as an integer when \<^verbatim>\<open>int\<close> returns one.
\<close>

theorem year_group_key:
  "year_category lim yr =
     (case py_int lim yr of Some n \<Rightarrow> if 2022 \<le> n then Year n else Older | None \<Rightarrow> Older) \<and>
   (add_publication_to_json lim data yr first_author ttl doi pdf_url = (data', True) \<longrightarrow>
      (\<exists>g \<in> set data'.
         year g = Some (case py_int lim yr of
                          Some n \<Rightarrow> if 2022 \<le> n then Year n else Older
                        | None \<Rightarrow> Older) \<and>
         (\<exists>ps. publications g = Some (ps @ [new_publication yr first_author ttl pdf_url]))))"
proof (intro conjI impI)
  show cat: "year_category lim yr =
     (case py_int lim yr of Some n \<Rightarrow> if 2022 \<le> n then Year n else Older | None \<Rightarrow> Older)"
    by (auto simp: year_category_def split: option.splits)
  assume add: "add_publication_to_json lim data yr first_author ttl doi pdf_url = (data', True)"
  let ?pub = "new_publication yr first_author ttl pdf_url"
  let ?k = "year_category lim yr"
  have "\<exists>g \<in> set data'. year g = Some ?k \<and> (\<exists>ps. publications g = Some (ps @ [?pub]))"
  proof (cases "find_year_group ?k data")
    case (Inl e)
    with add show ?thesis
      by (simp add: add_publication_to_json_def Let_def split: if_splits)
  next
    case (Inr found)
    show ?thesis
    proof (cases found)
      case None
      with Inr add have "data' = data @ [\<lparr>year = Some ?k, publications = Some [?pub]\<rparr>]"
        by (simp add: add_publication_to_json_def Let_def split: if_splits)
      then show ?thesis by auto
    next
      case (Some i)
      with Inr have i: "i < length data" "year (data ! i) = Some ?k"
        using find_year_group_Some [of ?k data i] by simp_all
      from Some Inr add obtain ps where ps: "publications (data ! i) = Some ps"
        and d': "data' = data[i := (data ! i)\<lparr>publications := Some (ps @ [?pub])\<rparr>]"
        by (auto simp: add_publication_to_json_def Let_def split: if_splits option.splits)
      let ?g = "(data ! i)\<lparr>publications := Some (ps @ [?pub])\<rparr>"
      from i d' have "?g \<in> set data'" by (simp add: set_update_memI)
      moreover from i have "year ?g = Some ?k" by simp
      moreover have "publications ?g = Some (ps @ [?pub])" by simp
      ultimately show ?thesis by blast
    qed
  qed
  with cat show "\<exists>g \<in> set data'.
         year g = Some (case py_int lim yr of
                          Some n \<Rightarrow> if 2022 \<le> n then Year n else Older
                        | None \<Rightarrow> Older) \<and>
         (\<exists>ps. publications g = Some (ps @ [new_publication yr first_author ttl pdf_url]))"
    by simp
qed

text \<open>
  The scenario of the specification: \<^verbatim>\<open>A Study\<close> is in the group \<open>Older\<close>, and the same
  title in another case is offered for the year 2023.
\<close>

theorem duplicate_title_blocks_insertion_witness:
  "lower ''A Study'' = lower ''a STUDY'' \<and>
   snd (add_publication_to_json 4300 catalog_with_study ''2023'' ''Doe'' ''a STUDY'' ''10.1000/x'' None) = False"
proof -
  have g: "\<lparr>year = Some Older, publications = Some [study_2021]\<rparr> \<in> set catalog_with_study"
    by (simp add: catalog_with_study_def)
  have ps: "publications \<lparr>year = Some Older, publications = Some [study_2021]\<rparr> = Some [study_2021]"
    by simp
  have p: "study_2021 \<in> set [study_2021]" by simp
  have t: "title study_2021 = Some ''A Study''"
    by (simp add: study_2021_def new_publication_def)
  have l: "lower ''A Study'' = lower ''a STUDY''" by code_simp
  from duplicate_title_blocks_insertion [OF g ps p t l] l show ?thesis by blast
qed

theorem rejected_merge_leaves_catalog_witness:
  "is_duplicate catalog_with_study ''a STUDY'' \<and>
   add_publication_to_json 4300 catalog_with_study ''2023'' ''Doe'' ''a STUDY'' ''10.1000/x'' None =
     (catalog_with_study, False) \<and>
   \<not> snd (add_publication_to_json 4300 catalog_with_study ''2023'' ''Doe'' ''a STUDY'' ''10.1000/x'' None) \<and>
   fst (add_publication_to_json 4300 catalog_with_study ''2023'' ''Doe'' ''a STUDY'' ''10.1000/x'' None) =
     catalog_with_study"
proof -
  have d: "is_duplicate catalog_with_study ''a STUDY''" by code_simp
  note inst = rejected_merge_leaves_catalog
    [of catalog_with_study "''a STUDY''" 4300 "''2023''" "''Doe''" "''10.1000/x''" None]
  from inst d have e: "add_publication_to_json 4300 catalog_with_study ''2023'' ''Doe'' ''a STUDY'' ''10.1000/x'' None =
     (catalog_with_study, False)" by blast
  then have n: "\<not> snd (add_publication_to_json 4300 catalog_with_study ''2023'' ''Doe'' ''a STUDY'' ''10.1000/x'' None)"
    by simp
  with inst have "fst (add_publication_to_json 4300 catalog_with_study ''2023'' ''Doe'' ''a STUDY'' ''10.1000/x'' None) =
     catalog_with_study" by blast
  with d e n show ?thesis by blast
qed

theorem year_group_key_witness:
  "py_int 4300 ''2023'' = Some 2023 \<and>
   year_category 4300 ''2023'' = Year 2023 \<and>
   py_int 4300 ''2021'' = Some 2021 \<and>
   year_category 4300 ''2021'' = Older \<and>
   py_int 4300 ''n.d.'' = None \<and>
   year_category 4300 ''n.d.'' = Older \<and>
   add_publication_to_json 4300 catalog_with_study ''2023'' ''Roe'' ''Another Study'' ''10.1000/y'' None =
     (catalog_with_study @
        [\<lparr>year = Some (Year 2023),
          publications = Some [new_publication ''2023'' ''Roe'' ''Another Study'' None]\<rparr>], True) \<and>
   (\<exists>g \<in> set (catalog_with_study @
        [\<lparr>year = Some (Year 2023),
          publications = Some [new_publication ''2023'' ''Roe'' ''Another Study'' None]\<rparr>]).
      year g = Some (Year 2023) \<and>
      (\<exists>ps. publications g = Some (ps @ [new_publication ''2023'' ''Roe'' ''Another Study'' None])))"
proof -
  have p1: "py_int 4300 ''2023'' = Some 2023" by code_simp
  have p2: "py_int 4300 ''2021'' = Some 2021" by code_simp
  have p3: "py_int 4300 ''n.d.'' = None" by code_simp
  have a: "add_publication_to_json 4300 catalog_with_study ''2023'' ''Roe'' ''Another Study'' ''10.1000/y'' None =
     (catalog_with_study @
        [\<lparr>year = Some (Year 2023),
          publications = Some [new_publication ''2023'' ''Roe'' ''Another Study'' None]\<rparr>], True)"
    by code_simp
  note i1 = year_group_key [of 4300 "''2023''" catalog_with_study "''Roe''" "''Another Study''"
      "''10.1000/y''" None
      "catalog_with_study @
        [\<lparr>year = Some (Year 2023),
          publications = Some [new_publication ''2023'' ''Roe'' ''Another Study'' None]\<rparr>]"]
  note i2 = year_group_key [of 4300 "''2021''" catalog_with_study "''Roe''" "''Another Study''"
      "''10.1000/y''" None catalog_with_study]
  note i3 = year_group_key [of 4300 "''n.d.''" catalog_with_study "''Roe''" "''Another Study''"
      "''10.1000/y''" None catalog_with_study]
  from i1 p1 have c1: "year_category 4300 ''2023'' = Year 2023" by simp
  from i2 p2 have c2: "year_category 4300 ''2021'' = Older" by simp
  from i3 p3 have c3: "year_category 4300 ''n.d.'' = Older" by simp
  from i1 a p1 have e: "\<exists>g \<in> set (catalog_with_study @
        [\<lparr>year = Some (Year 2023),
          publications = Some [new_publication ''2023'' ''Roe'' ''Another Study'' None]\<rparr>]).
      year g = Some (Year 2023) \<and>
      (\<exists>ps. publications g = Some (ps @ [new_publication ''2023'' ''Roe'' ''Another Study'' None]))"
    by simp
  from p1 p2 p3 c1 c2 c3 a e show ?thesis by blast
qed


subsection \<open>Persistence\<close>

lemma sort_groups_Inr:
  assumes "sort_groups data = Inr d"
  shows "sorted_wrt (\<lambda>a b. group_key b \<le> group_key a) d"
    and "mset d = mset data"
    and "\<forall>g \<in> set d. year g \<noteq> None"
proof -
  from assms have d: "d = rev (sort_key group_key (rev data))"
    and yrs: "\<not> list_ex (\<lambda>g. year g = None) data"
    by (auto simp: sort_groups_def split: if_splits)
  have "sorted (map group_key (sort_key group_key (rev data)))" by (rule sorted_sort_key)
  then have "sorted_wrt (\<lambda>a b. group_key a \<le> group_key b) (rev d)"
    unfolding d by (simp add: sorted_wrt_map)
  then show "sorted_wrt (\<lambda>a b. group_key b \<le> group_key a) d"
    by (simp add: sorted_wrt_rev)
  show m: "mset d = mset data" unfolding d by simp
  from yrs have "\<forall>g \<in> set data. year g \<noteq> None" by (simp add: list_ex_iff)
  moreover from m have "set d = set data" by (rule mset_eq_setD)
  ultimately show "\<forall>g \<in> set d. year g \<noteq> None" by simp
qed

lemma key_inf_top: "k \<le> Key_Inf"
  by (cases k) simp_all

lemma key_inf_le: "Key_Inf \<le> k \<longleftrightarrow> k = Key_Inf"
  by (cases k) simp_all

lemma descending_split:
  "sorted_wrt (\<lambda>a b. group_key b \<le> group_key a) d \<Longrightarrow>
   d = filter (\<lambda>g. group_key g = Key_Inf) d @ filter (\<lambda>g. group_key g \<noteq> Key_Inf) d"
proof (induction d)
  case Nil
  then show ?case by simp
next
  case (Cons g d)
  show ?case
  proof (cases "group_key g = Key_Inf")
    case True
    with Cons show ?thesis by simp
  next
    case False
    from Cons.prems have "\<forall>h \<in> set d. group_key h \<le> group_key g" by simp
    with False have "\<forall>h \<in> set d. group_key h \<noteq> Key_Inf"
      by (metis key_inf_le)
    then have "filter (\<lambda>g. group_key g = Key_Inf) d = []"
      and "filter (\<lambda>g. group_key g \<noteq> Key_Inf) d = d"
      by (simp_all add: filter_empty_conv filter_id_conv)
    with False show ?thesis by simp
  qed
qed

lemma group_key_inf_iff: "year g \<noteq> None \<Longrightarrow> group_key g = Key_Inf \<longleftrightarrow> older_group g"
  by (auto simp: group_key_def older_group_def split: option.splits year_key.splits)

lemma group_key_num:
  "year g \<noteq> None \<Longrightarrow> \<not> older_group g \<Longrightarrow>
     group_key g = Key_Num (year_number g) \<and> year g = Some (Year (year_number g))"
  by (auto simp: group_key_def older_group_def year_number_def split: option.splits year_key.splits)

lemma sorted_groups_shape:
  assumes "sort_groups data = Inr d"
  shows "d = filter older_group d @ filter (\<lambda>g. \<not> older_group g) d"
    and "sorted_wrt (\<lambda>a b. year_number b \<le> year_number a) (filter (\<lambda>g. \<not> older_group g) d)"
    and "\<forall>g \<in> set d. older_group g \<or> year g = Some (Year (year_number g))"
proof -
  note s = sort_groups_Inr [OF assms]
  from s(3) have eq1: "filter (\<lambda>g. group_key g = Key_Inf) d = filter older_group d"
    by (intro filter_cong) (auto simp: group_key_inf_iff)
  from s(3) have eq2: "filter (\<lambda>g. group_key g \<noteq> Key_Inf) d = filter (\<lambda>g. \<not> older_group g) d"
    by (intro filter_cong) (auto simp: group_key_inf_iff)
  from descending_split [OF s(1)] show "d = filter older_group d @ filter (\<lambda>g. \<not> older_group g) d"
    unfolding eq1 eq2 .
  from s(3) show num: "\<forall>g \<in> set d. older_group g \<or> year g = Some (Year (year_number g))"
    using group_key_num by blast
  have "sorted_wrt (\<lambda>a b. group_key b \<le> group_key a) (filter (\<lambda>g. \<not> older_group g) d)"
    using s(1) by (rule sorted_wrt_filter)
  then show "sorted_wrt (\<lambda>a b. year_number b \<le> year_number a) (filter (\<lambda>g. \<not> older_group g) d)"
  proof (rule sorted_wrt_mono_rel [rotated])
    fix a b
    assume a: "a \<in> set (filter (\<lambda>g. \<not> older_group g) d)"
      and b: "b \<in> set (filter (\<lambda>g. \<not> older_group g) d)"
      and le: "group_key b \<le> group_key a"
    from a s(3) have "group_key a = Key_Num (year_number a)" using group_key_num by auto
    moreover from b s(3) have "group_key b = Key_Num (year_number b)" using group_key_num by auto
    ultimately show "year_number b \<le> year_number a" using le by simp
  qed
qed

lemma save_True:
  assumes "save_publications_json env files data filepath = (True, data', files')"
  shows "sort_groups data = Inr data'" and "files' filepath = Some data'" and "can_write env"
    and "files filepath \<noteq> None \<longrightarrow> can_rename env"
  using assms
  by (auto simp: save_publications_json_def Let_def split: option.splits sum.splits if_splits)

lemma save_succeeds:
  assumes "can_write env" and "files filepath \<noteq> None \<longrightarrow> can_rename env"
    and "\<forall>g \<in> set data. year g \<noteq> None"
  shows "fst (save_publications_json env files data filepath)"
proof -
  from assms(3) have "sort_groups data = Inr (rev (sort_key group_key (rev data)))"
    by (auto simp: sort_groups_def list_ex_iff)
  with assms(1,2) show ?thesis
  by (auto simp: save_publications_json_def Let_def split: option.splits)
qed

text \<open>
  Claim C6: persistence succeeds when the disk cooperates and every group has a year,
  and whenever it succeeds the list, which is also the content written to the file,
  is a permutation of the groups given in which the \<open>Older\<close> groups come first and the
  numeric groups follow in decreasing order of their years.
\<close>

theorem saved_catalog_order:
  "(can_write env \<and> (files filepath \<noteq> None \<longrightarrow> can_rename env) \<and>
      (\<forall>g \<in> set data. year g \<noteq> None) \<longrightarrow>
      fst (save_publications_json env files data filepath)) \<and>
   (save_publications_json env files data filepath = (True, data', files') \<longrightarrow>
      data' = filter older_group data' @ filter (\<lambda>g. \<not> older_group g) data' \<and>
      sorted_wrt (\<lambda>a b. year_number b \<le> year_number a)
        (filter (\<lambda>g. \<not> older_group g) data') \<and>
      (\<forall>g \<in> set data'. older_group g \<or> year g = Some (Year (year_number g))) \<and>
      mset data' = mset data \<and>
      files' filepath = Some data')"
proof (intro conjI impI)
  assume "can_write env \<and> (files filepath \<noteq> None \<longrightarrow> can_rename env) \<and>
      (\<forall>g \<in> set data. year g \<noteq> None)"
  then show "fst (save_publications_json env files data filepath)"
    using save_succeeds [of env files filepath data] by blast
next
  assume saved: "save_publications_json env files data filepath = (True, data', files')"
  note sorted = save_True(1) [OF saved]
  show "data' = filter older_group data' @ filter (\<lambda>g. \<not> older_group g) data'"
    by (rule sorted_groups_shape(1) [OF sorted])
  show "sorted_wrt (\<lambda>a b. year_number b \<le> year_number a)
        (filter (\<lambda>g. \<not> older_group g) data')"
    by (rule sorted_groups_shape(2) [OF sorted])
  show "\<forall>g \<in> set data'. older_group g \<or> year g = Some (Year (year_number g))"
    by (rule sorted_groups_shape(3) [OF sorted])
  show "mset data' = mset data"
    by (rule sort_groups_Inr(2) [OF sorted])
  show "files' filepath = Some data'"
    by (rule save_True(2) [OF saved])
qed

lemma save_unsorted:
  "save_publications_json healthy_disk Map.empty unsorted_catalog ''publications.json'' =
     (True, sorted_catalog, [''publications.json'' \<mapsto> sorted_catalog])"
  by (simp add: save_publications_json_def sort_groups_def healthy_disk_def unsorted_catalog_def
      sorted_catalog_def group_key_def)

theorem saved_catalog_order_witness:
  "can_write healthy_disk \<and>
   fst (save_publications_json healthy_disk Map.empty unsorted_catalog ''publications.json'') \<and>
   save_publications_json healthy_disk Map.empty unsorted_catalog ''publications.json'' =
     (True, sorted_catalog, [''publications.json'' \<mapsto> sorted_catalog]) \<and>
   sorted_catalog =
     filter older_group sorted_catalog @ filter (\<lambda>g. \<not> older_group g) sorted_catalog \<and>
   map year sorted_catalog = [Some Older, Some (Year 2024), Some (Year 2022)] \<and>
   mset sorted_catalog = mset unsorted_catalog"
proof -
  note inst = saved_catalog_order [of healthy_disk Map.empty "''publications.json''"
      unsorted_catalog sorted_catalog "[''publications.json'' \<mapsto> sorted_catalog]"]
  have w: "can_write healthy_disk" by (simp add: healthy_disk_def)
  have y: "\<forall>g \<in> set unsorted_catalog. year g \<noteq> None" by (simp add: unsorted_catalog_def)
  from inst w y have f: "fst (save_publications_json healthy_disk Map.empty unsorted_catalog ''publications.json'')"
    by simp
  from inst save_unsorted have "sorted_catalog =
     filter older_group sorted_catalog @ filter (\<lambda>g. \<not> older_group g) sorted_catalog"
    and "mset sorted_catalog = mset unsorted_catalog"
    by blast+
  moreover have "map year sorted_catalog = [Some Older, Some (Year 2024), Some (Year 2022)]"
    by (simp add: sorted_catalog_def)
  ultimately show ?thesis using w f save_unsorted by blast
qed

section \<open>Properties of the resilient fetcher\<close>

lemma store_body_Returned:
  "store_body u r wr f = (Returned, f') \<Longrightarrow>
     f' = Some (if needs_peek u r then after_peek r else body r) \<and>
     1000 < length (if needs_peek u r then after_peek r else body r)"
  by (auto simp: store_body_def Let_def split: if_splits)

lemma store_body_flows:
  "store_body u r wr f = (fl, f') \<Longrightarrow> fl \<noteq> Continued \<and> (fl = Fell_Through \<longrightarrow> f' = None)"
  by (auto simp: store_body_def Let_def split: if_splits)

lemma request_flows:
  "request env ag = Inl fl \<Longrightarrow> (fl = Continued \<or> fl = Raised) \<and> (fl = Continued \<longrightarrow> ag)"
  by (auto simp: request_def split: get_result.splits if_splits)

lemma attempt_once_Returned:
  "attempt_once env u ag f = (Returned, f') \<Longrightarrow> \<exists>bs. f' = Some bs \<and> 1000 < length bs"
  by (auto simp: attempt_once_def split: sum.splits dest: request_flows store_body_Returned)

lemma attempt_once_Fell_Through:
  "attempt_once env u ag f = (Fell_Through, f') \<Longrightarrow> f' = None"
  by (auto simp: attempt_once_def split: sum.splits dest: request_flows store_body_flows)

lemma attempt_once_Continued:
  "attempt_once env u ag f = (Continued, f') \<Longrightarrow> ag \<and> f' = f"
  by (auto simp: attempt_once_def split: sum.splits dest: request_flows store_body_flows)

lemma download_loop_attempts:
  "attempts (download_loop w u m k a st) \<le> attempts st + k"
proof (induction k arbitrary: a st)
  case 0
  show ?case by simp
next
  case (Suc k)
  have step: "attempts (download_loop w u m k (Suc a) st') \<le> Suc (attempts st + k)"
    if "attempts st' = Suc (attempts st)" for st'
    using Suc [of "Suc a" st'] that by simp
  show ?case
  proof (cases "attempt_once (w a) u (int a < m - 1) (dest st)")
    case (Pair fl f)
    then show ?thesis
      by (cases fl) (auto simp: Let_def intro!: step)
  qed
qed

lemma download_loop_success:
  "succeeded (download_loop w u m k a st) \<Longrightarrow>
     \<exists>bs. dest (download_loop w u m k a st) = Some bs \<and> 1000 < length bs"
proof (induction k arbitrary: a st)
  case 0
  then show ?case by simp
next
  case (Suc k)
  show ?case
  proof (cases "attempt_once (w a) u (int a < m - 1) (dest st)")
    case (Pair fl f)
    show ?thesis
    proof (cases fl)
      case Returned
      with Pair attempt_once_Returned [of "w a" u "int a < m - 1" "dest st" f]
      show ?thesis by (simp add: Let_def)
    next
      case Continued
      with Pair Suc.prems show ?thesis
        using Suc.IH by (auto simp: Let_def)
    next
      case Raised
      with Pair Suc.prems show ?thesis
        using Suc.IH by (auto simp: Let_def)
    next
      case Fell_Through
      with Pair Suc.prems show ?thesis
        using Suc.IH by (auto simp: Let_def)
    qed
  qed
qed

lemma download_loop_failure:
  "0 < k \<Longrightarrow> int (a + k) = m \<Longrightarrow> \<not> succeeded (download_loop w u m k a st) \<Longrightarrow>
     dest (download_loop w u m k a st) = None"
proof (induction k arbitrary: a st)
  case 0
  then show ?case by simp
next
  case (Suc k)
  show ?case
  proof (cases "attempt_once (w a) u (int a < m - 1) (dest st)")
    case (Pair fl f)
    show ?thesis
    proof (cases "k = 0")
      case True
      with Suc.prems have last: "\<not> int a < m - 1" by simp
      show ?thesis
      proof (cases fl)
        case Returned
        with Pair Suc.prems show ?thesis by (simp add: Let_def)
      next
        case Continued
        with Pair last attempt_once_Continued [of "w a" u "int a < m - 1" "dest st" f]
        show ?thesis by simp
      next
        case Raised
        with Pair True show ?thesis by (simp add: Let_def)
      next
        case Fell_Through
        with Pair True attempt_once_Fell_Through [of "w a" u "int a < m - 1" "dest st" f]
        show ?thesis by (simp add: Let_def)
      qed
    next
      case False
      then have k: "0 < k" by simp
      from Suc.prems have m: "int (Suc a + k) = m" by simp
      show ?thesis
      proof (cases fl)
        case Returned
        with Pair Suc.prems show ?thesis by (simp add: Let_def)
      next
        case Continued
        with Pair Suc.prems(3) show ?thesis
          using Suc.IH [OF k m] by (auto simp: Let_def)
      next
        case Raised
        with Pair Suc.prems(3) show ?thesis
          using Suc.IH [OF k m] by (auto simp: Let_def)
      next
        case Fell_Through
        with Pair Suc.prems(3) show ?thesis
          using Suc.IH [OF k m] by (auto simp: Let_def)
      qed
    qed
  qed
qed

text \<open>
  Claim C2, as the code has it: the call begins at most \<open>max_retries\<close> attempts; when
  it returns failure after at least one attempt, or when there was no file at the
  destination before the call, no file is at the destination afterwards; and when it
  returns success the file at the destination has more than 1000 bytes.  A file of
  1000 bytes or fewer that an attempt wrote is therefore never what the call leaves.
  With \<open>max_retries\<close> at most 0 no attempt is made, failure is returned, and the
  destination is as it was before the call.
\<close>

theorem download_pdf_bounded_and_clean:
  "attempts (download_pdf w u f m) \<le> nat m \<and>
   (\<not> succeeded (download_pdf w u f m) \<and> (1 \<le> m \<or> f = None) \<longrightarrow>
      dest (download_pdf w u f m) = None) \<and>
   (succeeded (download_pdf w u f m) \<longrightarrow>
      (\<exists>bs. dest (download_pdf w u f m) = Some bs \<and> 1000 < length bs)) \<and>
   (m \<le> 0 \<longrightarrow>
      download_pdf w u f m = \<lparr>succeeded = False, dest = f, attempts = 0, sleeps = []\<rparr>)"
proof (intro conjI impI)
  show "attempts (download_pdf w u f m) \<le> nat m"
    using download_loop_attempts
      [of w u m "nat m" 0 "\<lparr>succeeded = False, dest = f, attempts = 0, sleeps = []\<rparr>"]
    by (simp add: download_pdf_def)
  show "\<exists>bs. dest (download_pdf w u f m) = Some bs \<and> 1000 < length bs"
    if "succeeded (download_pdf w u f m)"
    using that download_loop_success [of w u m "nat m" 0] by (simp add: download_pdf_def)
  show "dest (download_pdf w u f m) = None"
    if h: "\<not> succeeded (download_pdf w u f m) \<and> (1 \<le> m \<or> f = None)"
  proof (cases "1 \<le> m")
    case True
    then have "0 < nat m" and "int (0 + nat m) = m" by simp_all
    with h show ?thesis
      using download_loop_failure [of "nat m" 0 m w u] by (simp add: download_pdf_def)
  next
    case False
    with h have "f = None" and "nat m = 0" by simp_all
    then show ?thesis by (simp add: download_pdf_def)
  qed
  show "download_pdf w u f m = \<lparr>succeeded = False, dest = f, attempts = 0, sleeps = []\<rparr>"
    if "m \<le> 0"
    using that by (simp add: download_pdf_def)
qed

text \<open>
  The handling of HTTP 403 by itself: with \<open>max_retries = 3\<close>, when the first two
  attempts are answered with 403 and the third with a response that is no error, is
  announced as a document by its content type or by the URL, is delivered completely
  and can be written, and has more than 1000 bytes, the call returns success after
  three attempts, having waited 5 time units after each of the two 403 responses, and
  the file holds the body.
\<close>

lemma forbidden_twice_then_announced_document:
  assumes "get_verified (world 0) = Response r0" and "status_code r0 = 403"
    and "get_verified (world 1) = Response r1" and "status_code r1 = 403"
    and "get_verified (world 2) = Response r2" and "\<not> raises_for_status (status_code r2)"
    and "\<not> stream_breaks r2" and "dest_writable (world 2)"
    and "\<not> needs_peek url0 r2" and "1000 < length (body r2)"
  shows "succeeded (download_pdf world url0 file 3) \<and>
         attempts (download_pdf world url0 file 3) = 3 \<and>
         sleeps (download_pdf world url0 file 3) = [5, 5] \<and>
         dest (download_pdf world url0 file 3) = Some (body r2)"
proof -
  have a0: "attempt_once (world 0) url0 True file = (Continued, file)"
    using assms(1,2) by (simp add: attempt_once_def request_def raises_for_status_def)
  have a1: "attempt_once (world (Suc 0)) url0 True file = (Continued, file)"
    using assms(3,4) by (simp add: attempt_once_def request_def raises_for_status_def)
  have a2: "attempt_once (world (Suc (Suc 0))) url0 False file = (Returned, Some (body r2))"
    using assms(5-10)
    by (auto simp: attempt_once_def request_def store_body_def Let_def numeral_2_eq_2)
  have n: "nat 3 = Suc (Suc (Suc 0))" by simp
  show ?thesis
    unfolding download_pdf_def n
    by (simp add: Let_def a0 a1 a2)
qed

lemma attempt_forbidden:
  "attempt_once forbidden_env u ag f = (if ag then Continued else Raised, f)"
  by (simp add: attempt_once_def request_def forbidden_env_def raises_for_status_def)

lemma always_forbidden_3:
  "download_pdf always_forbidden ''https://journal.example.org/content/42.pdf'' (Some ''stale'') 3 =
     \<lparr>succeeded = False, dest = None, attempts = 3, sleeps = [5, 5]\<rparr>"
proof -
  have n: "nat 3 = Suc (Suc (Suc 0))" by simp
  show ?thesis
    unfolding download_pdf_def n
    by (simp add: Let_def always_forbidden_def attempt_forbidden)
qed

lemma needs_peek_octet:
  "needs_peek ''https://repo.example.org/download?id=7''
     \<lparr>status_code = 200, content_type = Some ''application/octet-stream'', body = b,
      stream_breaks = False, first_read = 1024, chunked = False\<rparr>"
  unfolding needs_peek_def by code_simp

lemma not_needs_peek_pdf:
  "\<not> needs_peek u
     \<lparr>status_code = 200, content_type = Some ''application/pdf'', body = b,
      stream_breaks = False, first_read = 1024, chunked = False\<rparr>"
proof -
  have "contains (lower ''application/pdf'') ''pdf''" by code_simp
  then show ?thesis by (simp add: needs_peek_def)
qed

text \<open>
  Claim C3, at a successful fetch of an unlabelled document: the URL does not end in
  \<^verbatim>\<open>.pdf\<close> and the content type is \<^verbatim>\<open>application/octet-stream\<close>, so the first 1024
  bytes of the body are read off the stream to look for the signature.  The call
  returns success on the first attempt, and the file holds the last 1984 of the 3008
  bytes of the body: the bytes read for the signature, the signature among them, are
  not written.
\<close>

theorem peeked_bytes_are_not_stored:
  "get_verified (unlabelled_document 0) =
     Response \<lparr>status_code = 200, content_type = Some ''application/octet-stream'',
               body = ''%PDF-1.4'' @ replicate 3000 (CHR ''x''), stream_breaks = False,
               first_read = 1024, chunked = False\<rparr> \<and>
   succeeded (download_pdf unlabelled_document ''https://repo.example.org/download?id=7'' None 3) \<and>
   attempts (download_pdf unlabelled_document ''https://repo.example.org/download?id=7'' None 3) = 1 \<and>
   dest (download_pdf unlabelled_document ''https://repo.example.org/download?id=7'' None 3) =
     Some (replicate 1984 (CHR ''x''))"
proof -
  have n: "nat 3 = Suc (Suc (Suc 0))" by simp
  have d: "drop 1024 (''%PDF-1.4'' @ replicate 3000 (CHR ''x'')) = replicate 1984 (CHR ''x'')"
    by simp
  have a: "attempt_once (unlabelled_document 0) ''https://repo.example.org/download?id=7'' True None =
     (Returned, Some (replicate 1984 (CHR ''x'')))"
    using needs_peek_octet [of "''%PDF-1.4'' @ replicate 3000 (CHR ''x'')"]
    by (simp add: attempt_once_def request_def store_body_def unlabelled_document_def
        document_env_def raises_for_status_def Let_def after_peek_def d)
  show ?thesis
    unfolding download_pdf_def n
    by (simp add: Let_def a) (simp add: unlabelled_document_def document_env_def)
qed

theorem download_pdf_bounded_and_clean_witness:
  "\<not> succeeded (download_pdf always_forbidden ''https://journal.example.org/content/42.pdf'' (Some ''stale'') 3) \<and>
   (1::int) \<le> 3 \<and>
   attempts (download_pdf always_forbidden ''https://journal.example.org/content/42.pdf'' (Some ''stale'') 3) \<le> nat 3 \<and>
   dest (download_pdf always_forbidden ''https://journal.example.org/content/42.pdf'' (Some ''stale'') 3) = None \<and>
   succeeded (download_pdf forbidden_twice ''https://journal.example.org/content/42.pdf'' None 3) \<and>
   (\<exists>bs. dest (download_pdf forbidden_twice ''https://journal.example.org/content/42.pdf'' None 3) = Some bs \<and>
      1000 < length bs) \<and>
   (0::int) \<le> 0 \<and>
   download_pdf always_forbidden ''https://journal.example.org/content/42.pdf'' (Some ''stale'') 0 =
     \<lparr>succeeded = False, dest = Some ''stale'', attempts = 0, sleeps = []\<rparr>"
proof -
  note i1 = download_pdf_bounded_and_clean
    [of always_forbidden "''https://journal.example.org/content/42.pdf''" "Some ''stale''" 3]
  note i2 = download_pdf_bounded_and_clean
    [of forbidden_twice "''https://journal.example.org/content/42.pdf''" None 3]
  have f: "\<not> succeeded (download_pdf always_forbidden ''https://journal.example.org/content/42.pdf'' (Some ''stale'') 3)"
    by (simp add: always_forbidden_3)
  have n: "nat 3 = Suc (Suc (Suc 0))" by simp
  have a2: "attempt_once (forbidden_twice (Suc (Suc 0))) ''https://journal.example.org/content/42.pdf'' False None =
    (Returned, Some (''%PDF-1.4'' @ replicate 1500 (CHR ''x'')))"
    using not_needs_peek_pdf [of "''https://journal.example.org/content/42.pdf''" "''%PDF-1.4'' @ replicate 1500 (CHR ''x'')"]
    by (simp add: attempt_once_def request_def store_body_def forbidden_twice_def
        document_env_def raises_for_status_def Let_def numeral_2_eq_2)
  have s: "succeeded (download_pdf forbidden_twice ''https://journal.example.org/content/42.pdf'' None 3)"
    unfolding download_pdf_def n
    by (simp add: Let_def forbidden_twice_def attempt_forbidden numeral_2_eq_2 a2 [unfolded forbidden_twice_def numeral_2_eq_2, simplified])
  from i1 f have "attempts (download_pdf always_forbidden ''https://journal.example.org/content/42.pdf'' (Some ''stale'') 3) \<le> nat 3"
    and "dest (download_pdf always_forbidden ''https://journal.example.org/content/42.pdf'' (Some ''stale'') 3) = None"
    by simp_all
  moreover from i2 s have "\<exists>bs. dest (download_pdf forbidden_twice ''https://journal.example.org/content/42.pdf'' None 3) = Some bs \<and>
      1000 < length bs" by blast
  moreover have "download_pdf always_forbidden ''https://journal.example.org/content/42.pdf''
      (Some ''stale'') 0 = \<lparr>succeeded = False, dest = Some ''stale'', attempts = 0, sleeps = []\<rparr>"
    using download_pdf_bounded_and_clean
      [of always_forbidden "''https://journal.example.org/content/42.pdf''" "Some ''stale''" 0]
    by simp
  ultimately show ?thesis using f s by simp
qed

text \<open>
  Claim C2 as stated fails for \<open>max_retries = 0\<close> when a file is at the destination
  before the call: no attempt is made, the call returns failure, and the file is
  still there.
\<close>

theorem untouched_file_remains:
  "\<not> succeeded (download_pdf always_forbidden ''https://journal.example.org/content/42.pdf'' (Some ''stale'') 0) \<and>
   attempts (download_pdf always_forbidden ''https://journal.example.org/content/42.pdf'' (Some ''stale'') 0) = 0 \<and>
   dest (download_pdf always_forbidden ''https://journal.example.org/content/42.pdf'' (Some ''stale'') 0) = Some ''stale''"
  by (simp add: download_pdf_def)

text \<open>
  Claim C9, at a valid document that the server does not label: the first two
  attempts are answered with HTTP 403, each followed by a wait of 5 time units and the
  next attempt, and the third with a document of 1508 bytes that starts with the
  signature, under the content type \<^verbatim>\<open>application/octet-stream\<close> and at a URL that
  does not end in \<^verbatim>\<open>.pdf\<close>.  The first 1024 bytes are read for the signature and not
  written, the 484 bytes that are written are too few, the file is removed, and the
  call returns failure after its three attempts.
\<close>

theorem unlabelled_document_after_forbidden_fails:
  "get_verified (forbidden_twice_unlabelled 0) = get_verified forbidden_env \<and>
   get_verified (forbidden_twice_unlabelled 1) = get_verified forbidden_env \<and>
   get_verified (forbidden_twice_unlabelled 2) =
     Response \<lparr>status_code = 200, content_type = Some ''application/octet-stream'',
               body = ''%PDF-1.4'' @ replicate 1500 (CHR ''x''), stream_breaks = False,
               first_read = 1024, chunked = False\<rparr> \<and>
   download_pdf forbidden_twice_unlabelled ''https://repo.example.org/download?id=7'' None 3 =
     \<lparr>succeeded = False, dest = None, attempts = 3, sleeps = [5, 5]\<rparr>"
proof -
  have n: "nat 3 = Suc (Suc (Suc 0))" by simp
  have a2: "attempt_once (document_env ''application/octet-stream'' 1500)
      ''https://repo.example.org/download?id=7'' False None = (Fell_Through, None)"
    using needs_peek_octet [of "''%PDF-1.4'' @ replicate 1500 (CHR ''x'')"]
    by (simp add: attempt_once_def request_def store_body_def document_env_def
        raises_for_status_def Let_def after_peek_def)
  have "download_pdf forbidden_twice_unlabelled ''https://repo.example.org/download?id=7'' None 3 =
     \<lparr>succeeded = False, dest = None, attempts = 3, sleeps = [5, 5]\<rparr>"
    unfolding download_pdf_def n
    by (simp add: Let_def forbidden_twice_unlabelled_def attempt_forbidden a2)
  then show ?thesis
    by (simp add: forbidden_twice_unlabelled_def document_env_def)
qed

end
